theory Spec2Isabelle
  imports Main "HOL-Library.Sublist" "HOL-Library.Multiset" "HOL-Library.Word"
begin

section \<open>Go strings\<close>

text \<open>
  A Go string is a sequence of bytes, and so is \<^typ>\<open>string\<close> here (a \<^typ>\<open>char\<close> is one
  byte). The functions of Go's \<^verbatim>\<open>strings\<close> package that the client calls are written out
  below, with Go's results: \<^verbatim>\<open>strings.Index\<close> returns the byte offset of the first
  occurrence, or \<^verbatim>\<open>-1\<close>.
\<close>

fun strings_Index :: "string \<Rightarrow> string \<Rightarrow> int" where
  "strings_Index [] substr = (if substr = [] then 0 else - 1)"
| "strings_Index (c # s) substr =
     (if prefix substr (c # s) then 0
      else (let r = strings_Index s substr in if r < 0 then - 1 else r + 1))"

definition strings_Contains :: "string \<Rightarrow> string \<Rightarrow> bool" where
  "strings_Contains s substr = (0 \<le> strings_Index s substr)"

text \<open>The slice expressions \<^verbatim>\<open>s[lo:]\<close> and \<^verbatim>\<open>s[lo:hi]\<close>.\<close>

definition sliceFrom :: "string \<Rightarrow> int \<Rightarrow> string" where
  "sliceFrom s lo = drop (nat lo) s"

definition slice :: "string \<Rightarrow> int \<Rightarrow> int \<Rightarrow> string" where
  "slice s lo hi = take (nat (hi - lo)) (drop (nat lo) s)"

lemma strings_Index_ge: "- 1 \<le> strings_Index s p"
  by (induction s) (auto simp: Let_def)

lemma strings_Index_nonempty:
  "0 \<le> strings_Index s p \<Longrightarrow> p \<noteq> [] \<Longrightarrow> s \<noteq> []"
  by (cases s) auto

text \<open>
  \<^verbatim>\<open>strings.Replace(s, old, new, n)\<close> replaces the first \<^verbatim>\<open>n\<close> non-overlapping
  occurrences of \<^verbatim>\<open>old\<close>, all of them when \<^verbatim>\<open>n < 0\<close>. Every call in the client passes
  a non-empty literal for \<^verbatim>\<open>old\<close>; Go's rule for an empty \<^verbatim>\<open>old\<close> (insert between
  UTF-8 sequences) is not part of this embedding, which leaves \<^verbatim>\<open>s\<close> as it is there.
\<close>

function strings_Replace :: "string \<Rightarrow> string \<Rightarrow> string \<Rightarrow> int \<Rightarrow> string" where
  "strings_Replace s old new n =
     (if old = [] \<or> old = new \<or> n = 0 then s
      else if strings_Index s old < 0 then s
      else take (nat (strings_Index s old)) s @ new @
           strings_Replace (drop (nat (strings_Index s old) + length old) s) old new (n - 1))"
  by pat_completeness auto
termination
proof (relation "measure (\<lambda>(s, old, new, n). length s)")
  show "wf (measure (\<lambda>(s, old, new, n). length s))" by simp
next
  fix s old new :: string and n :: int
  assume a: "\<not> (old = [] \<or> old = new \<or> n = 0)" "\<not> strings_Index s old < 0"
  then have "s \<noteq> []" using strings_Index_nonempty [of s old] by auto
  moreover have "0 < length old" using a by simp
  ultimately show "((drop (nat (strings_Index s old) + length old) s, old, new, n - 1),
        (s, old, new, n)) \<in> measure (\<lambda>(s, old, new, n). length s)"
    by (cases s) auto
qed

declare strings_Replace.simps [simp del]

definition strings_ReplaceAll :: "string \<Rightarrow> string \<Rightarrow> string \<Rightarrow> string" where
  "strings_ReplaceAll s old new = strings_Replace s old new (- 1)"

section \<open>The namespace-agnostic extractor and the fault classifier\<close>

text \<open>
  The loop \<^verbatim>\<open>for _, pattern := range patterns\<close> that takes the offset of the first
  pattern found in \<^verbatim>\<open>s\<close>, or leaves \<^verbatim>\<open>-1\<close>.
\<close>

fun firstFound :: "string \<Rightarrow> string list \<Rightarrow> int" where
  "firstFound s [] = - 1"
| "firstFound s (pattern # patterns) =
     (if strings_Index s pattern \<noteq> - 1 then strings_Index s pattern
      else firstFound s patterns)"

text \<open>
  The loop \<^verbatim>\<open>for i := idx - 1; i >= 0 && i > idx-20; i--\<close> of \<^verbatim>\<open>extractBetweenTags\<close>,
  which walks back from the marker to the nearest \<^verbatim>\<open><\<close>; \<^verbatim>\<open>-1\<close> when it finds none.
  The index \<^verbatim>\<open>i\<close> stays below \<^verbatim>\<open>idx\<close>, an offset into \<^verbatim>\<open>s\<close>, so \<^verbatim>\<open>s[i]\<close> is in range.
\<close>

function walkBack :: "string \<Rightarrow> int \<Rightarrow> int \<Rightarrow> int" where
  "walkBack s idx i =
     (if 0 \<le> i \<and> idx - 20 < i
      then (if s ! nat i = CHR ''<'' then i else walkBack s idx (i - 1))
      else - 1)"
  by pat_completeness auto
termination
  by (relation "measure (\<lambda>(s, idx, i). nat (i + 1))") auto

declare walkBack.simps [simp del]

definition extractBetweenTags :: "string \<Rightarrow> string \<Rightarrow> string" where
  "extractBetweenTags s localName =
     (let openIdx = firstFound s [''<'' @ localName @ ''>'', ''<'' @ localName @ '' ''];
          openIdx =
            (if openIdx = - 1
             then (let idx = strings_Index s ('':'' @ localName @ ''>'')
                   in if idx \<noteq> - 1 then walkBack s idx (idx - 1) else openIdx)
             else openIdx)
      in if openIdx = - 1 then []
         else
          (let contentStart = strings_Index (sliceFrom s openIdx) ''>''
           in if contentStart = - 1 then []
              else
               (let contentStart = contentStart + openIdx + 1;
                    closeIdx = strings_Index (sliceFrom s contentStart) ('':'' @ localName @ ''>'');
                    closeIdx =
                      (if closeIdx = - 1
                       then strings_Index (sliceFrom s contentStart) (''</'' @ localName @ ''>'')
                       else closeIdx)
                in if closeIdx = - 1 then []
                   else slice s contentStart (contentStart + closeIdx))))"

text \<open>
  The closing-tag loop of \<^verbatim>\<open>extractTextElement\<close>: each marker is prefixed with
  \<^verbatim>\<open></\<close> before the search, as the source does.
\<close>

fun closeTagLoop :: "string \<Rightarrow> int \<Rightarrow> string list \<Rightarrow> string" where
  "closeTagLoop s contentStart [] = []"
| "closeTagLoop s contentStart (closeMarker # closeMarkers) =
     (let closeTag = ''</'' @ closeMarker;
          idx = strings_Index (sliceFrom s contentStart) closeTag
      in if idx \<noteq> - 1 then slice s contentStart (contentStart + idx)
         else closeTagLoop s contentStart closeMarkers)"

definition extractTextElement :: "string \<Rightarrow> string" where
  "extractTextElement s =
     (let textStart = firstFound s ['':Text '', '':Text>'', ''<Text '', ''<Text>'']
      in if textStart = - 1 then []
         else
          (let contentStart = strings_Index (sliceFrom s textStart) ''>''
           in if contentStart = - 1 then []
              else closeTagLoop s (contentStart + textStart + 1) ['':Text>'', ''</Text>'']))"

definition containsSOAPFault :: "string \<Rightarrow> bool" where
  "containsSOAPFault resp =
     (if strings_Contains resp '':Fault>'' \<or> strings_Contains resp '':Fault '' then True
      else if strings_Contains resp ''<Fault>'' \<or> strings_Contains resp ''<Fault '' then True
      else False)"

text \<open>
  \<^verbatim>\<open>parseSOAPFault\<close> returns Go's \<^verbatim>\<open>error\<close>: \<^const>\<open>None\<close> is \<^verbatim>\<open>nil\<close>, and
  \<open>Some msg\<close> is the error made by \<^verbatim>\<open>fmt.Errorf\<close> with message \<open>msg\<close>.
\<close>

definition parseSOAPFault :: "string \<Rightarrow> string option" where
  "parseSOAPFault respStr =
     (if \<not> containsSOAPFault respStr then None
      else if strings_Contains respStr ''ter:UsernameClash'' then Some ''username already exists''
      else if strings_Contains respStr ''ter:UsernameMissing'' then Some ''username not found''
      else if strings_Contains respStr ''ter:TooManyUsers''
        then Some ''maximum number of users reached''
      else if strings_Contains respStr ''ter:FixedUser''
        then Some ''cannot modify or delete fixed user''
      else if strings_Contains respStr ''ter:Password''
        then Some ''password does not meet requirements''
      else if strings_Contains respStr ''NotAuthorized''
              \<or> strings_Contains respStr ''ter:NotAuthorized''
        then Some ''not authorized''
      else
       (let reason = extractBetweenTags respStr ''Reason'';
            text = (if reason \<noteq> [] then extractTextElement reason else [])
        in if text \<noteq> [] then Some (''SOAP fault: '' @ text)
           else
            (let start = strings_Index respStr ''<faultstring>'';
                 end = (if start \<noteq> - 1
                        then strings_Index (sliceFrom respStr (start + 13)) ''</faultstring>''
                        else - 1)
             in if start \<noteq> - 1 \<and> end \<noteq> - 1
                then Some (''SOAP fault: '' @ slice respStr (start + 13) (start + 13 + end))
                else Some ''SOAP fault in response'')))"

section \<open>Whitespace, fields and trimming\<close>

text \<open>
  \<^verbatim>\<open>strings.Fields\<close> and \<^verbatim>\<open>strings.TrimSpace\<close> use \<^verbatim>\<open>unicode.IsSpace\<close>: the ASCII
  characters tab, line feed, vertical tab, form feed, carriage return and space, and the
  code points U+0085, U+00A0, U+1680, U+2000 to U+200A, U+2028, U+2029, U+202F, U+205F and
  U+3000. A Go string holds them in UTF-8, so each is listed as its byte sequence. The
  first byte of each sequence is never a continuation byte, so a sequence found in the
  bytes is always a rune that Go decodes.
\<close>

definition unicodeSpaces :: "string list" where
  "unicodeSpaces =
     [[CHR 0x09], [CHR 0x0A], [CHR 0x0B], [CHR 0x0C], [CHR 0x0D], [CHR 0x20],
      [CHR 0xC2, CHR 0x85], [CHR 0xC2, CHR 0xA0], [CHR 0xE1, CHR 0x9A, CHR 0x80],
      [CHR 0xE2, CHR 0x80, CHR 0x80], [CHR 0xE2, CHR 0x80, CHR 0x81],
      [CHR 0xE2, CHR 0x80, CHR 0x82], [CHR 0xE2, CHR 0x80, CHR 0x83],
      [CHR 0xE2, CHR 0x80, CHR 0x84], [CHR 0xE2, CHR 0x80, CHR 0x85],
      [CHR 0xE2, CHR 0x80, CHR 0x86], [CHR 0xE2, CHR 0x80, CHR 0x87],
      [CHR 0xE2, CHR 0x80, CHR 0x88], [CHR 0xE2, CHR 0x80, CHR 0x89],
      [CHR 0xE2, CHR 0x80, CHR 0x8A], [CHR 0xE2, CHR 0x80, CHR 0xA8],
      [CHR 0xE2, CHR 0x80, CHR 0xA9], [CHR 0xE2, CHR 0x80, CHR 0xAF],
      [CHR 0xE2, CHR 0x81, CHR 0x9F], [CHR 0xE3, CHR 0x80, CHR 0x80]]"

text \<open>The number of bytes of the whitespace rune that \<open>s\<close> starts (ends) with, or 0.\<close>

definition spaceWidth :: "string \<Rightarrow> nat" where
  "spaceWidth s = (case List.find (\<lambda>w. prefix w s) unicodeSpaces of None \<Rightarrow> 0 | Some w \<Rightarrow> length w)"

definition spaceWidthEnd :: "string \<Rightarrow> nat" where
  "spaceWidthEnd s = (case List.find (\<lambda>w. suffix w s) unicodeSpaces of None \<Rightarrow> 0 | Some w \<Rightarrow> length w)"

text \<open>
  \<^verbatim>\<open>strings.Fields\<close>: the maximal runs of non-whitespace, in order; \<open>field\<close> is the run
  being read.
\<close>

function fieldsLoop :: "string \<Rightarrow> string \<Rightarrow> string list" where
  "fieldsLoop [] field = (if field = [] then [] else [field])"
| "fieldsLoop (c # s) field =
     (if spaceWidth (c # s) = 0 then fieldsLoop s (field @ [c])
      else (if field = [] then [] else [field]) @ fieldsLoop (drop (spaceWidth (c # s) - 1) s) [])"
  by pat_completeness auto
termination
  by (relation "measure (\<lambda>(s, field). length s)") auto

definition strings_Fields :: "string \<Rightarrow> string list" where
  "strings_Fields s = fieldsLoop s []"

function trimLeft :: "string \<Rightarrow> string" where
  "trimLeft [] = []"
| "trimLeft (c # s) =
     (if spaceWidth (c # s) = 0 then c # s else trimLeft (drop (spaceWidth (c # s) - 1) s))"
  by pat_completeness auto
termination
  by (relation "measure length") auto

function trimRight :: "string \<Rightarrow> string" where
  "trimRight s =
     (if s = [] \<or> spaceWidthEnd s = 0 then s else trimRight (take (length s - spaceWidthEnd s) s))"
  by pat_completeness auto
termination
  by (relation "measure length") auto

declare trimRight.simps [simp del]

definition strings_TrimSpace :: "string \<Rightarrow> string" where
  "strings_TrimSpace s = trimRight (trimLeft s)"

text \<open>
  \<^verbatim>\<open>strings.Split(s, sep)\<close>: the pieces of \<^verbatim>\<open>s\<close> between the occurrences of \<^verbatim>\<open>sep\<close>.
  The client splits at the literal \<^verbatim>\<open>" "\<close> only; for an empty \<^verbatim>\<open>sep\<close> Go splits
  after each UTF-8 sequence, which is each byte for ASCII text.
\<close>

function strings_Split :: "string \<Rightarrow> string \<Rightarrow> string list" where
  "strings_Split s sep =
     (if sep = [] then map (\<lambda>c. [c]) s
      else if strings_Index s sep < 0 then [s]
      else take (nat (strings_Index s sep)) s #
           strings_Split (drop (nat (strings_Index s sep) + length sep) s) sep)"
  by pat_completeness auto
termination
proof (relation "measure (\<lambda>(s, sep). length s)")
  show "wf (measure (\<lambda>(s, sep). length s))" by simp
next
  fix s sep :: string
  assume a: "sep \<noteq> []" "\<not> strings_Index s sep < 0"
  then have "s \<noteq> []" using strings_Index_nonempty [of s sep] by auto
  then show "((drop (nat (strings_Index s sep) + length sep) s, sep), (s, sep))
        \<in> measure (\<lambda>(s, sep). length s)"
    using a by (cases s) auto
qed

declare strings_Split.simps [simp del]

section \<open>Discovery: cameras, scopes and deduplication\<close>

record Camera =
  Name :: string
  Address :: string
  Profiles :: "string list"
  Model :: string
  Location :: string
  Hostname :: string
  HostnameFrom :: string
  Manufacturer :: string
  DeviceModel :: string
  FirmwareVersion :: string
  SerialNumber :: string
  HardwareId :: string
  TimeZone :: string
  DateTime :: string
  VideoSources :: int
  VideoOutputs :: int
  AudioSources :: int
  AudioOutputs :: int
  RelayOutputs :: int
  PTZSupport :: bool
  AnalyticsSupport :: bool
  MediaURL :: string
  ImagingURL :: string

text \<open>
  The camera that \<^verbatim>\<open>DiscoverCameras\<close> builds from one probe match: the five discovery
  fields are set, every other field has Go's zero value.
\<close>

definition discoveredCamera ::
  "string \<Rightarrow> string \<Rightarrow> string list \<Rightarrow> string \<Rightarrow> string \<Rightarrow> Camera" where
  "discoveredCamera name xaddrs profiles model location =
     \<lparr>Name = name, Address = xaddrs, Profiles = profiles, Model = model, Location = location,
      Hostname = [], HostnameFrom = [], Manufacturer = [], DeviceModel = [],
      FirmwareVersion = [], SerialNumber = [], HardwareId = [], TimeZone = [], DateTime = [],
      VideoSources = 0, VideoOutputs = 0, AudioSources = 0, AudioOutputs = 0, RelayOutputs = 0,
      PTZSupport = False, AnalyticsSupport = False, MediaURL = [], ImagingURL = []\<rparr>"

definition getFirstAddress :: "string \<Rightarrow> string" where
  "getFirstAddress address =
     (case strings_Fields address of [] \<Rightarrow> address | a # _ \<Rightarrow> a)"

text \<open>
  \<^verbatim>\<open>parseScopes\<close>: the loop over the pieces of the scope string, with the three named
  results as its state.
\<close>

fun scopesLoop :: "string list \<Rightarrow> string \<times> string \<times> string \<Rightarrow> string \<times> string \<times> string" where
  "scopesLoop [] (name, location, model) = (name, location, model)"
| "scopesLoop (scope # scopeList) (name, location, model) =
     (let scope = strings_TrimSpace scope
      in if strings_Contains scope ''onvif://www.onvif.org/name/''
         then scopesLoop scopeList
                (strings_Replace (strings_Replace scope ''onvif://www.onvif.org/name/'' [] 1)
                   ''_'' '' '' (- 1), location, model)
         else if strings_Contains scope ''onvif://www.onvif.org/location/''
         then scopesLoop scopeList
                (name, strings_Replace (strings_Replace scope ''onvif://www.onvif.org/location/'' [] 1)
                   ''_'' '' '' (- 1), model)
         else if strings_Contains scope ''onvif://www.onvif.org/hardware/''
         then scopesLoop scopeList
                (name, location,
                 strings_Replace (strings_Replace scope ''onvif://www.onvif.org/hardware/'' [] 1)
                   ''_'' '' '' (- 1))
         else scopesLoop scopeList (name, location, model))"

definition parseScopes :: "string \<Rightarrow> string \<times> string \<times> string" where
  "parseScopes scopes = scopesLoop (strings_Split scopes '' '') ([], [], [])"

text \<open>
  \<^verbatim>\<open>deduplicateCameras\<close>. Indexing \<^verbatim>\<open>addresses[0]\<close> of an empty slice is a run-time
  panic, which nothing in the package recovers: it is the error value here.

  The Go map \<^verbatim>\<open>cameraMap\<close> is the list of its entries, with distinct keys, in the order
  in which they were stored. Go leaves the order in which \<^verbatim>\<open>range\<close> visits a map
  unspecified, so the second loop takes that order as a parameter \<open>iter\<close>, which may be
  any rearrangement of the entries (\<open>map_range_order\<close>).
\<close>

datatype error = IndexOutOfRange

fun dedupLoop :: "Camera list \<Rightarrow> (string \<times> Camera) list \<Rightarrow> error + (string \<times> Camera) list" where
  "dedupLoop [] cameraMap = Inr cameraMap"
| "dedupLoop (camera # cameras) cameraMap =
     (case strings_Fields (Address camera) of
        [] \<Rightarrow> Inl IndexOutOfRange
      | key # _ \<Rightarrow>
          dedupLoop cameras
            (if key \<in> fst ` set cameraMap then cameraMap else cameraMap @ [(key, camera)]))"

definition deduplicateCameras ::
  "((string \<times> Camera) list \<Rightarrow> (string \<times> Camera) list) \<Rightarrow> Camera list \<Rightarrow> error + Camera list" where
  "deduplicateCameras iter cameras =
     (case dedupLoop cameras [] of
        Inl e \<Rightarrow> Inl e
      | Inr cameraMap \<Rightarrow> Inr (map snd (iter cameraMap)))"

definition map_range_order :: "((string \<times> Camera) list \<Rightarrow> (string \<times> Camera) list) \<Rightarrow> bool" where
  "map_range_order iter = (\<forall>m. mset (iter m) = mset m)"

text \<open>The deduplication key of a camera, when its address field has a token.\<close>

definition cameraKey :: "Camera \<Rightarrow> string option" where
  "cameraKey camera = (case strings_Fields (Address camera) of [] \<Rightarrow> None | key # _ \<Rightarrow> Some key)"

section \<open>SHA-1 and Base64\<close>

text \<open>
  \<^verbatim>\<open>generatePasswordDigest\<close> calls \<^verbatim>\<open>crypto/sha1\<close> and \<^verbatim>\<open>encoding/base64\<close> of Go's
  standard library. Both are written out from their standards: SHA-1 from FIPS 180-4 on
  32-bit words, and the standard Base64 alphabet with \<^verbatim>\<open>=\<close> padding from RFC 4648.
\<close>

unbundle bit_operations_syntax

definition be32 :: "char \<Rightarrow> char \<Rightarrow> char \<Rightarrow> char \<Rightarrow> 32 word" where
  "be32 a b c d = push_bit 24 (of_char a) OR push_bit 16 (of_char b) OR push_bit 8 (of_char c) OR of_char d"

definition bytes32 :: "32 word \<Rightarrow> string" where
  "bytes32 w = [char_of (unat (drop_bit 24 w)), char_of (unat (drop_bit 16 w)),
                char_of (unat (drop_bit 8 w)), char_of (unat w)]"

definition sha1Pad :: "string \<Rightarrow> string" where
  "sha1Pad msg =
     msg @ [CHR 0x80] @ replicate ((119 - length msg mod 64) mod 64) (CHR 0x00) @
     map (\<lambda>i. char_of ((8 * length msg) div 256 ^ i)) [7, 6, 5, 4, 3, 2, 1, 0]"

fun blockWords :: "string \<Rightarrow> 32 word list" where
  "blockWords (a # b # c # d # rest) = be32 a b c d # blockWords rest"
| "blockWords _ = []"

definition sha1Schedule :: "string \<Rightarrow> 32 word list" where
  "sha1Schedule block =
     fold (\<lambda>t w. w @ [word_rotl 1 (w ! (t - 3) XOR w ! (t - 8) XOR w ! (t - 14) XOR w ! (t - 16))])
       [16..<80] (blockWords block)"

type_synonym sha1State = "32 word \<times> 32 word \<times> 32 word \<times> 32 word \<times> 32 word"

definition sha1Round :: "32 word list \<Rightarrow> nat \<Rightarrow> sha1State \<Rightarrow> sha1State" where
  "sha1Round w t = (\<lambda>(a, b, c, d, e).
     (let f = (if t < 20 then (b AND c) OR (NOT b AND d)
               else if t < 40 then b XOR c XOR d
               else if t < 60 then (b AND c) OR (b AND d) OR (c AND d)
               else b XOR c XOR d);
          k = (if t < 20 then 0x5A827999
               else if t < 40 then 0x6ED9EBA1
               else if t < 60 then 0x8F1BBCDC
               else 0xCA62C1D6)
      in (word_rotl 5 a + f + e + k + w ! t, a, word_rotl 30 b, c, d)))"

definition sha1Block :: "sha1State \<Rightarrow> string \<Rightarrow> sha1State" where
  "sha1Block h block =
     (case h of (h0, h1, h2, h3, h4) \<Rightarrow>
        (case fold (sha1Round (sha1Schedule block)) [0..<80] h of
           (a, b, c, d, e) \<Rightarrow> (h0 + a, h1 + b, h2 + c, h3 + d, h4 + e)))"

function sha1Blocks :: "sha1State \<Rightarrow> string \<Rightarrow> sha1State" where
  "sha1Blocks h msg =
     (if length msg < 64 then h else sha1Blocks (sha1Block h (take 64 msg)) (drop 64 msg))"
  by pat_completeness auto
termination
  by (relation "measure (\<lambda>(h, msg). length msg)") auto

declare sha1Blocks.simps [simp del]

definition sha1 :: "string \<Rightarrow> string" where
  "sha1 msg =
     (case sha1Blocks (0x67452301, 0xEFCDAB89, 0x98BADCFE, 0x10325476, 0xC3D2E1F0) (sha1Pad msg) of
        (h0, h1, h2, h3, h4) \<Rightarrow> bytes32 h0 @ bytes32 h1 @ bytes32 h2 @ bytes32 h3 @ bytes32 h4)"

definition base64Alphabet :: string where
  "base64Alphabet = ''ABCDEFGHIJKLMNOPQRSTUVWXYZabcdefghijklmnopqrstuvwxyz0123456789+/''"

definition base64Char :: "nat \<Rightarrow> char" where
  "base64Char n = base64Alphabet ! n"

fun base64 :: "string \<Rightarrow> string" where
  "base64 [] = []"
| "base64 [a] =
     [base64Char (of_char a div 4), base64Char (of_char a mod 4 * 16), CHR ''='', CHR ''='']"
| "base64 [a, b] =
     [base64Char (of_char a div 4), base64Char (of_char a mod 4 * 16 + of_char b div 16),
      base64Char (of_char b mod 16 * 4), CHR ''='']"
| "base64 (a # b # c # rest) =
     [base64Char (of_char a div 4), base64Char (of_char a mod 4 * 16 + of_char b div 16),
      base64Char (of_char b mod 16 * 4 + of_char c div 64), base64Char (of_char c mod 64)]
     @ base64 rest"

section \<open>The digest authenticator\<close>

text \<open>\<^verbatim>\<open>fmt.Sprintf("%d", n)\<close>: the decimal digits of an integer, with a sign when negative.\<close>

function showNat :: "nat \<Rightarrow> string" where
  "showNat n = (if n < 10 then [char_of (48 + n)] else showNat (n div 10) @ [char_of (48 + n mod 10)])"
  by pat_completeness auto
termination
  by (relation "measure id") auto

declare showNat.simps [simp del]

definition showInt :: "int \<Rightarrow> string" where
  "showInt i = (if i < 0 then CHR ''-'' # showNat (nat (- i)) else showNat (nat i))"

text \<open>
  The hash of \<^verbatim>\<open>generatePasswordDigest\<close>: the three \<^verbatim>\<open>h.Write\<close> calls feed the nonce, the
  timestamp and the password, in this order, and the sum is encoded in Base64.
\<close>

definition passwordDigest :: "string \<Rightarrow> string \<Rightarrow> string \<Rightarrow> string" where
  "passwordDigest nonceBytes created password = base64 (sha1 (nonceBytes @ created @ password))"

text \<open>
  \<^verbatim>\<open>generatePasswordDigest\<close> reads the clock twice: \<open>created\<close> is the first reading as
  \<^verbatim>\<open>Format("2006-01-02T15:04:05.000Z")\<close> prints it in UTC, \<open>unixNano\<close> the second. The
  user name is a parameter that the function does not use.
\<close>

definition generatePasswordDigest :: "string \<Rightarrow> int \<Rightarrow> string \<Rightarrow> string \<Rightarrow> string \<times> string \<times> string" where
  "generatePasswordDigest created unixNano username password =
     (let nonce = showInt unixNano;
          nonceBytes = nonce;
          nonceB64 = base64 nonceBytes;
          digest = passwordDigest nonceBytes created password
      in (digest, nonceB64, created))"

section \<open>The SOAP envelope and the transport\<close>

record Client =
  Username :: string
  Password :: string
  Timeout :: int
  InsecureTLS :: bool

text \<open>Line feed, tab and double quote, for the raw string literals of \<^verbatim>\<open>sendSOAPRequest\<close>.\<close>

definition nl :: string where "nl = [CHR 0x0A]"
definition tab :: string where "tab = [CHR 0x09]"
definition dq :: string where "dq = [CHR 0x22]"

text \<open>
  The local variables \<^verbatim>\<open>authHeader\<close> and \<^verbatim>\<open>soapRequest\<close>: \<^verbatim>\<open>fmt.Sprintf\<close> puts
  its string arguments in the places of \<^verbatim>\<open>%s\<close> as they are.
\<close>

definition authHeader :: "string \<Rightarrow> string \<Rightarrow> string \<Rightarrow> string \<Rightarrow> string" where
  "authHeader username digest nonce created =
     (if username \<noteq> [] then
        nl @ tab @ tab @ ''<Security xmlns='' @ dq
          @ ''http://docs.oasis-open.org/wss/2004/01/oasis-200401-wss-wssecurity-secext-1.0.xsd''
          @ dq @ ''>'' @ nl
        @ tab @ tab @ tab @ ''<UsernameToken>'' @ nl
        @ tab @ tab @ tab @ tab @ ''<Username>'' @ username @ ''</Username>'' @ nl
        @ tab @ tab @ tab @ tab @ ''<Password Type='' @ dq
          @ ''http://docs.oasis-open.org/wss/2004/01/oasis-200401-wss-username-token-profile-1.0#PasswordDigest''
          @ dq @ ''>'' @ digest @ ''</Password>'' @ nl
        @ tab @ tab @ tab @ tab @ ''<Nonce EncodingType='' @ dq
          @ ''http://docs.oasis-open.org/wss/2004/01/oasis-200401-wss-soap-message-security-1.0#Base64Binary''
          @ dq @ ''>'' @ nonce @ ''</Nonce>'' @ nl
        @ tab @ tab @ tab @ tab @ ''<Created xmlns='' @ dq
          @ ''http://docs.oasis-open.org/wss/2004/01/oasis-200401-wss-wssecurity-utility-1.0.xsd''
          @ dq @ ''>'' @ created @ ''</Created>'' @ nl
        @ tab @ tab @ tab @ ''</UsernameToken>'' @ nl
        @ tab @ tab @ ''</Security>''
      else [])"

definition envelopeOpen :: string where
  "envelopeOpen =
     ''<?xml version='' @ dq @ ''1.0'' @ dq @ '' encoding='' @ dq @ ''UTF-8'' @ dq @ ''?>'' @ nl
     @ ''<s:Envelope xmlns:s='' @ dq @ ''http://www.w3.org/2003/05/soap-envelope'' @ dq @ nl
     @ ''            xmlns:tds='' @ dq @ ''http://www.onvif.org/ver10/device/wsdl'' @ dq @ nl
     @ ''            xmlns:trt='' @ dq @ ''http://www.onvif.org/ver10/media/wsdl'' @ dq @ nl
     @ ''            xmlns:tt='' @ dq @ ''http://www.onvif.org/ver10/schema'' @ dq @ nl
     @ ''            xmlns:timg='' @ dq @ ''http://www.onvif.org/ver20/imaging/wsdl'' @ dq @ nl
     @ ''            xmlns:tr2='' @ dq @ ''http://www.onvif.org/ver20/media/wsdl'' @ dq @ ''>'' @ nl"

definition soapRequest :: "string \<Rightarrow> string \<Rightarrow> string" where
  "soapRequest header body =
     envelopeOpen
     @ tab @ ''<s:Header>'' @ header @ ''</s:Header>'' @ nl
     @ tab @ ''<s:Body>'' @ body @ ''</s:Body>'' @ nl
     @ ''</s:Envelope>''"

text \<open>
  What lies outside the program: the two clock readings of \<^verbatim>\<open>generatePasswordDigest\<close>,
  whether \<^verbatim>\<open>http.NewRequest\<close> rejects the endpoint, what the round trip of
  \<^verbatim>\<open>client.Do\<close> and \<^verbatim>\<open>io.ReadAll\<close> gives for a request, and the table
  \<^verbatim>\<open>http.StatusText\<close> of Go's library.
\<close>

record Request =
  Method :: string
  URL :: string
  ContentType :: string
  SOAPAction :: string
  RequestBody :: string
  RequestTimeout :: int
  InsecureSkipVerify :: bool

datatype RoundTrip = DoError string | ReadError string | Response int string

record World =
  clockCreated :: string
  clockUnixNano :: int
  newRequestError :: "string \<Rightarrow> string option"
  roundTrip :: "Request \<Rightarrow> RoundTrip"
  statusText :: "int \<Rightarrow> string"

text \<open>The request that \<^verbatim>\<open>sendSOAPRequest\<close> builds; a \<^verbatim>\<open>time.Duration\<close> counts nanoseconds.\<close>

definition buildRequest :: "World \<Rightarrow> Client \<Rightarrow> string \<Rightarrow> string \<Rightarrow> string \<Rightarrow> Request" where
  "buildRequest w c endpoint action body =
     (case generatePasswordDigest (clockCreated w) (clockUnixNano w) (Username c) (Password c) of
        (digest, nonce, created) \<Rightarrow>
          \<lparr>Method = ''POST'', URL = endpoint,
           ContentType = ''application/soap+xml; charset=utf-8'', SOAPAction = action,
           RequestBody = soapRequest (authHeader (Username c) digest nonce created) body,
           RequestTimeout = (if Timeout c = 0 then 10 * 1000000000 else Timeout c),
           InsecureSkipVerify = InsecureTLS c\<rparr>)"

text \<open>
  \<^verbatim>\<open>sendSOAPRequest\<close> returns a byte slice and an error: \<^const>\<open>None\<close> is \<^verbatim>\<open>nil\<close> in
  both places, and an error is its message.
\<close>

definition sendSOAPRequest ::
  "World \<Rightarrow> Client \<Rightarrow> string \<Rightarrow> string \<Rightarrow> string \<Rightarrow> string option \<times> string option" where
  "sendSOAPRequest w c endpoint action body =
     (case newRequestError w endpoint of
        Some err \<Rightarrow> (None, Some err)
      | None \<Rightarrow>
         (case roundTrip w (buildRequest w c endpoint action body) of
            DoError err \<Rightarrow> (None, Some err)
          | ReadError err \<Rightarrow> (None, Some err)
          | Response statusCode respBody \<Rightarrow>
              if 400 \<le> statusCode then
                if length respBody = 0
                then (None, Some (''HTTP '' @ showInt statusCode @ '' with empty response''))
                else (Some respBody,
                      Some (''HTTP '' @ showInt statusCode @ '': '' @ statusText w statusCode))
              else (Some respBody, None)))"

section \<open>escapeXML\<close>

definition escapeXML :: "string \<Rightarrow> string" where
  "escapeXML s0 =
     (let s = strings_ReplaceAll s0 ''&'' ''&amp;'';
          s = strings_ReplaceAll s ''<'' ''&lt;'';
          s = strings_ReplaceAll s ''>'' ''&gt;'';
          s = strings_ReplaceAll s [CHR 0x27] ''&apos;'';
          s = strings_ReplaceAll s [CHR 0x22] ''&quot;''
      in s)"


section \<open>Definitions for the statements\<close>

text \<open>The five entities, and the entity or character that stands for one character.\<close>

definition xmlEntities :: "string list" where
  "xmlEntities = [''&amp;'', ''&lt;'', ''&gt;'', ''&apos;'', ''&quot;'']"

definition escapeChar :: "char \<Rightarrow> string" where
  "escapeChar c =
     (if c = CHR ''&'' then ''&amp;''
      else if c = CHR ''<'' then ''&lt;''
      else if c = CHR ''>'' then ''&gt;''
      else if c = CHR 0x27 then ''&apos;''
      else if c = CHR 0x22 then ''&quot;''
      else [c])"

text \<open>
  The reading of the specification: the scope string is cut at spaces, each piece is
  trimmed, and a field takes its value from the last piece that is a token of its kind,
  the pattern removed once and every underscore made a space. A piece is of the first
  kind whose pattern it contains, in the order name, location, hardware.
\<close>

definition scopeTokens :: "string \<Rightarrow> string list" where
  "scopeTokens scopes = map strings_TrimSpace (strings_Split scopes '' '')"

definition underscoresToSpaces :: "string \<Rightarrow> string" where
  "underscoresToSpaces = map (\<lambda>c. if c = CHR ''_'' then CHR '' '' else c)"

definition scopeValue :: "string \<Rightarrow> string list \<Rightarrow> string \<Rightarrow> string" where
  "scopeValue pattern tokens unset =
     (if tokens = [] then unset
      else underscoresToSpaces (strings_Replace (last tokens) pattern [] 1))"

definition isNameToken :: "string \<Rightarrow> bool" where
  "isNameToken t = strings_Contains t ''onvif://www.onvif.org/name/''"

definition isLocationToken :: "string \<Rightarrow> bool" where
  "isLocationToken t =
     (\<not> isNameToken t \<and> strings_Contains t ''onvif://www.onvif.org/location/'')"

definition isHardwareToken :: "string \<Rightarrow> bool" where
  "isHardwareToken t =
     (\<not> isNameToken t \<and> \<not> isLocationToken t \<and> strings_Contains t ''onvif://www.onvif.org/hardware/'')"




section \<open>Properties of escapeXML\<close>

lemma Replace_single_Cons:
  assumes "new \<noteq> [c]" "n \<noteq> 0"
  shows "strings_Replace (x # s) [c] new n =
    (if x = c then new @ strings_Replace s [c] new (n - 1) else x # strings_Replace s [c] new n)"
proof (cases "x = c")
  case True
  then show ?thesis using assms
    by (subst strings_Replace.simps) auto
next
  case False
  show ?thesis
  proof (cases "strings_Index s [c] < 0")
    case True
    then have "strings_Replace s [c] new n = s"
      by (subst strings_Replace.simps) simp
    moreover have "strings_Replace (x # s) [c] new n = x # s"
      using True False by (subst strings_Replace.simps) (simp add: Let_def)
    ultimately show ?thesis using False by simp
  next
    case nonneg: False
    then have r: "0 \<le> strings_Index s [c]" by simp
    have "strings_Replace (x # s) [c] new n =
        x # take (nat (strings_Index s [c])) s @ new @
          strings_Replace (drop (nat (strings_Index s [c]) + 1) s) [c] new (n - 1)"
      using nonneg False assms r
      by (subst strings_Replace.simps) (simp add: Let_def nat_add_distrib)
    moreover have "strings_Replace s [c] new n =
        take (nat (strings_Index s [c])) s @ new @
          strings_Replace (drop (nat (strings_Index s [c]) + 1) s) [c] new (n - 1)"
      using nonneg assms by (subst strings_Replace.simps) simp
    ultimately show ?thesis using False by simp
  qed
qed

lemma ReplaceAll_single:
  assumes "new \<noteq> [c]"
  shows "strings_ReplaceAll s [c] new = concat (map (\<lambda>x. if x = c then new else [x]) s)"
proof -
  have "n < 0 \<Longrightarrow> strings_Replace s [c] new n = concat (map (\<lambda>x. if x = c then new else [x]) s)" for n
  proof (induction s arbitrary: n)
    case Nil
    then show ?case by (subst strings_Replace.simps) simp
  next
    case (Cons x s)
    then show ?case using assms by (simp add: Replace_single_Cons)
  qed
  then show ?thesis by (simp add: strings_ReplaceAll_def)
qed

lemma concat_map_concat_map:
  "concat (map g (concat (map f s))) = concat (map (\<lambda>x. concat (map g (f x))) s)"
  by (induction s) auto

lemma escapeXML_chars: "escapeXML s = concat (map escapeChar s)"
proof -
  have "escapeXML s = concat (map (\<lambda>x. 
      concat (map (\<lambda>x. if x = CHR 0x22 then ''&quot;'' else [x])
      (concat (map (\<lambda>x. if x = CHR 0x27 then ''&apos;'' else [x])
      (concat (map (\<lambda>x. if x = CHR ''>'' then ''&gt;'' else [x])
      (concat (map (\<lambda>x. if x = CHR ''<'' then ''&lt;'' else [x])
        (if x = CHR ''&'' then ''&amp;'' else [x]))))))))) s)"
    by (simp add: escapeXML_def ReplaceAll_single concat_map_concat_map)
  also have "\<dots> = concat (map escapeChar s)"
    by (rule arg_cong [where f = concat], rule map_cong) (auto simp: escapeChar_def)
  finally show ?thesis .
qed


lemma escapeChar_set:
  "set (escapeChar c) \<inter> {CHR ''<'', CHR ''>'', CHR 0x22, CHR 0x27} = {}"
  by (simp add: escapeChar_def)

lemma escapeChar_amp:
  "i < length (escapeChar c) \<Longrightarrow> escapeChar c ! i = CHR ''&'' \<Longrightarrow>
     i = 0 \<and> escapeChar c \<in> set xmlEntities"
  by (auto simp: escapeChar_def xmlEntities_def nth_Cons' split: if_splits)

lemma concat_escapeChar_amp:
  "i < length (concat (map escapeChar s)) \<Longrightarrow> concat (map escapeChar s) ! i = CHR ''&'' \<Longrightarrow>
     \<exists>e\<in>set xmlEntities. prefix e (drop i (concat (map escapeChar s)))"
proof (induction s arbitrary: i)
  case Nil
  then show ?case by simp
next
  case (Cons c s)
  let ?rest = "concat (map escapeChar s)"
  show ?case
  proof (cases "i < length (escapeChar c)")
    case True
    then have "escapeChar c ! i = CHR ''&''"
      using Cons.prems(2) by (simp add: nth_append)
    then have "i = 0" "escapeChar c \<in> set xmlEntities"
      using escapeChar_amp [OF True] by auto
    then show ?thesis
      by (intro bexI [where x = "escapeChar c"]) simp_all
  next
    case False
    then have "i - length (escapeChar c) < length ?rest"
      and "?rest ! (i - length (escapeChar c)) = CHR ''&''"
      using Cons.prems by (auto simp: nth_append)
    then obtain e where "e \<in> set xmlEntities" "prefix e (drop (i - length (escapeChar c)) ?rest)"
      using Cons.IH by blast
    then show ?thesis using False by auto
  qed
qed

text \<open>
  C10: the output of \<^const>\<open>escapeXML\<close> has no \<^verbatim>\<open><\<close>, \<^verbatim>\<open>>\<close>, double quote or
  apostrophe, and every \<^verbatim>\<open>&\<close> in it starts one of the five entities, so an escaped
  user name or password cannot open or close an element of the request body.
\<close>

theorem escapeXML_no_markup:
  "CHR ''<'' \<notin> set (escapeXML s) \<and> CHR ''>'' \<notin> set (escapeXML s) \<and>
   CHR 0x22 \<notin> set (escapeXML s) \<and> CHR 0x27 \<notin> set (escapeXML s) \<and>
   (\<forall>i<length (escapeXML s). escapeXML s ! i = CHR ''&'' \<longrightarrow>
      (\<exists>e\<in>set xmlEntities. prefix e (drop i (escapeXML s))))"
proof -
  have "set (escapeXML s) \<inter> {CHR ''<'', CHR ''>'', CHR 0x22, CHR 0x27} = {}"
    using escapeChar_set by (fastforce simp: escapeXML_chars)
  then show ?thesis
    using concat_escapeChar_amp [of _ s] by (auto simp: escapeXML_chars)
qed

theorem escapeXML_no_markup_witness:
  "escapeXML ''a<b&'' = ''a&lt;b&amp;'' \<and> 
   (6::nat) < length (escapeXML ''a<b&'') \<and> escapeXML ''a<b&'' ! 6 = CHR ''&'' \<and>
   (\<exists>e\<in>set xmlEntities. prefix e (drop 6 (escapeXML ''a<b&''))) \<and>
   CHR ''<'' \<notin> set (escapeXML ''a<b&'')"
proof -
  have e: "escapeXML ''a<b&'' = ''a&lt;b&amp;''" by code_simp
  have h: "(6::nat) < length (escapeXML ''a<b&'')" "escapeXML ''a<b&'' ! 6 = CHR ''&''"
    by (simp_all add: e)
  from escapeXML_no_markup [of "''a<b&''"] h e show ?thesis by blast
qed

section \<open>Properties of the extractor and the fault classifier\<close>

lemma strings_Index_drop: "0 \<le> strings_Index (drop k s) p \<Longrightarrow> 0 \<le> strings_Index s p"
proof (induction s arbitrary: k)
  case Nil
  then show ?case by simp
next
  case (Cons c s)
  show ?case
  proof (cases k)
    case 0
    then show ?thesis using Cons.prems by simp
  next
    case (Suc k')
    then have "0 \<le> strings_Index s p" using Cons by simp
    then show ?thesis by (simp add: Let_def)
  qed
qed

lemma strings_Index_absent: "(strings_Index s p = - 1) = (\<not> 0 \<le> strings_Index s p)"
  using strings_Index_ge [of s p] by linarith

lemma strings_Index_sliceFrom_absent:
  "\<not> strings_Contains s p \<Longrightarrow> strings_Index (sliceFrom s lo) p = - 1"
  using strings_Index_drop [of "nat lo" s p]
  by (auto simp: strings_Index_absent strings_Contains_def sliceFrom_def)

text \<open>
  The closing tags that \<^const>\<open>extractTextElement\<close> searches for are the literal strings
  \<^verbatim>\<open></:Text>\<close> and \<^verbatim>\<open></</Text>\<close>: without one of them in the text, it finds nothing.
\<close>

lemma closeTagLoop_literal_markers:
  assumes "\<not> strings_Contains s ''</:Text>''" "\<not> strings_Contains s ''</</Text>''"
  shows "closeTagLoop s contentStart ['':Text>'', ''</Text>''] = []"
  using assms by (simp add: strings_Index_sliceFrom_absent)

lemma extractTextElement_needs_literal_marker:
  assumes "\<not> strings_Contains s ''</:Text>''" "\<not> strings_Contains s ''</</Text>''"
  shows "extractTextElement s = []"
  unfolding extractTextElement_def Let_def
  using closeTagLoop_literal_markers [OF assms] by simp

text \<open>
  C3: a body with a \<^verbatim>\<open>Fault\<close> element whose \<^verbatim>\<open>Reason\<close> holds the \<^verbatim>\<open>Text\<close>
  ``Sender not authorized'' should be classified as not authorized, or give that text as
  its message. On the body of Scenario C the classifier returns the generic error
  ``SOAP fault in response'' instead.
\<close>

theorem parseSOAPFault_scenario_C:
  "parseSOAPFault ''<SOAP-ENV:Fault><SOAP-ENV:Reason><SOAP-ENV:Text>Sender not authorized</SOAP-ENV:Text></SOAP-ENV:Reason></SOAP-ENV:Fault>''
     = Some ''SOAP fault in response''"
  by code_simp

text \<open>
  C6: for a local name that occurs once, under any prefix and with or without attributes,
  \<^const>\<open>extractBetweenTags\<close> should return the text between the opening and the closing
  tag. Under a prefix it returns the inner text followed by \<^verbatim>\<open></tt\<close>, and nothing at
  all when the prefixed opening tag has an attribute.
\<close>

theorem extractBetweenTags_prefixed:
  "extractBetweenTags ''<tt:Name>cam</tt:Name>'' ''Name'' = ''cam</tt'' \<and>
   extractBetweenTags (''<tt:Name token='' @ [CHR 0x22, CHR ''1'', CHR 0x22] @ ''>cam</tt:Name>'')
     ''Name'' = []"
  by code_simp

section \<open>Properties of deduplication\<close>

lemma cameraKey_Some: "cameraKey c = Some key \<longleftrightarrow> (\<exists>rest. strings_Fields (Address c) = key # rest)"
  by (auto simp: cameraKey_def split: list.splits)

lemma cameraKey_None: "cameraKey c = None \<longleftrightarrow> strings_Fields (Address c) = []"
  by (auto simp: cameraKey_def split: list.splits)

lemma fieldsLoop_nonempty: "f \<in> set (fieldsLoop s field) \<Longrightarrow> f \<noteq> []"
  by (induction s field rule: fieldsLoop.induct) (auto split: if_splits)

text \<open>A deduplication key is a token of the address field, and never the empty string.\<close>

lemma cameraKey_nonempty: "cameraKey c = Some key \<Longrightarrow> key \<noteq> []"
  using fieldsLoop_nonempty [of key "Address c" "[]"]
  by (auto simp: cameraKey_def strings_Fields_def split: list.splits)

lemma dedupLoop_Cons_key:
  "cameraKey camera = Some key \<Longrightarrow>
   dedupLoop (camera # cameras) m =
     dedupLoop cameras (if key \<in> fst ` set m then m else m @ [(key, camera)])"
proof -
  assume "cameraKey camera = Some key"
  then obtain rest where "strings_Fields (Address camera) = key # rest"
    by (auto simp: cameraKey_Some)
  then show ?thesis by (simp only: dedupLoop.simps list.case)
qed

lemma dedupLoop_Cons_None:
  "cameraKey camera = None \<Longrightarrow> dedupLoop (camera # cameras) m = Inl IndexOutOfRange"
  by (simp add: cameraKey_None)

lemma dedupLoop_returns:
  "(\<exists>m'. dedupLoop cameras m = Inr m') \<longleftrightarrow> (\<forall>c\<in>set cameras. cameraKey c \<noteq> None)"
proof (induction cameras arbitrary: m)
  case Nil
  then show ?case by simp
next
  case (Cons camera cameras)
  show ?case
  proof (cases "cameraKey camera")
    case None
    then show ?thesis by (auto simp: dedupLoop_Cons_None simp del: dedupLoop.simps)
  next
    case (Some key)
    then show ?thesis using Cons.IH by (simp only: dedupLoop_Cons_key [OF Some]) auto
  qed
qed

lemma dedupLoop_first_seen:
  assumes "dedupLoop cameras m = Inr m'"
  shows "\<exists>new. m' = m @ new \<and> distinct (map fst new) \<and> fst ` set new \<inter> fst ` set m = {} \<and>
           fst ` set m' = fst ` set m \<union> {k. \<exists>c\<in>set cameras. cameraKey c = Some k} \<and>
           (\<forall>(k, c)\<in>set new. List.find (\<lambda>x. cameraKey x = Some k) cameras = Some c)"
  using assms
proof (induction cameras arbitrary: m)
  case Nil
  then show ?case by simp
next
  case (Cons camera cameras)
  from Cons.prems obtain key where key: "cameraKey camera = Some key"
    by (cases "cameraKey camera") (auto simp: dedupLoop_Cons_None simp del: dedupLoop.simps)
  let ?m1 = "if key \<in> fst ` set m then m else m @ [(key, camera)]"
  have run: "dedupLoop cameras ?m1 = Inr m'"
    using Cons.prems by (simp only: dedupLoop_Cons_key [OF key])
  from Cons.IH [OF run] obtain new where new:
    "m' = ?m1 @ new" "distinct (map fst new)" "fst ` set new \<inter> fst ` set ?m1 = {}"
    "fst ` set m' = fst ` set ?m1 \<union> {k. \<exists>c\<in>set cameras. cameraKey c = Some k}"
    "\<forall>(k, c)\<in>set new. List.find (\<lambda>x. cameraKey x = Some k) cameras = Some c"
    by blast
  have keys: "fst ` set m' = fst ` set m \<union> {k. \<exists>c\<in>set (camera # cameras). cameraKey c = Some k}"
    using new(4) key by (auto split: if_splits)
  show ?case
  proof (cases "key \<in> fst ` set m")
    case True
    then have "key \<notin> fst ` set new" using new(3) by auto
    then have "\<forall>(k, c)\<in>set new. k \<noteq> key" by force
    then have "\<forall>(k, c)\<in>set new. List.find (\<lambda>x. cameraKey x = Some k) (camera # cameras) = Some c"
      using new(5) key by auto
    then show ?thesis using new(1,2,3) keys True
      by (intro exI [where x = new]) simp
  next
    case False
    then have notin: "key \<notin> fst ` set new" using new(3) by auto
    then have "\<forall>(k, c)\<in>set new. k \<noteq> key" by force
    then have "\<forall>(k, c)\<in>set new. List.find (\<lambda>x. cameraKey x = Some k) (camera # cameras) = Some c"
      using new(5) key by auto
    then have "\<forall>(k, c)\<in>set ((key, camera) # new).
        List.find (\<lambda>x. cameraKey x = Some k) (camera # cameras) = Some c"
      using key by simp
    moreover have "distinct (map fst ((key, camera) # new))" using new(2) notin by simp
    moreover have "fst ` set ((key, camera) # new) \<inter> fst ` set m = {}"
      using new(3) False by auto
    moreover have "m' = m @ (key, camera) # new" using new(1) False by simp
    ultimately show ?thesis using keys
      by (intro exI [where x = "(key, camera) # new"]) blast
  qed
qed

lemma dedupLoop_distinct_keys:
  assumes "distinct (map cameraKey cameras)" "\<forall>c\<in>set cameras. cameraKey c \<noteq> None"
    "\<forall>c\<in>set cameras. cameraKey c \<notin> Some ` fst ` set m"
  shows "dedupLoop cameras m = Inr (m @ map (\<lambda>c. (the (cameraKey c), c)) cameras)"
  using assms
proof (induction cameras arbitrary: m)
  case Nil
  then show ?case by simp
next
  case (Cons camera cameras)
  then obtain key where key: "cameraKey camera = Some key" by auto
  then have fresh: "key \<notin> fst ` set m" using Cons.prems(3) by auto
  have "\<forall>c\<in>set cameras. cameraKey c \<notin> Some ` fst ` set (m @ [(key, camera)])"
    using Cons.prems(1,3) key by (auto simp: image_iff)
  then have "dedupLoop cameras (m @ [(key, camera)]) =
      Inr ((m @ [(key, camera)]) @ map (\<lambda>c. (the (cameraKey c), c)) cameras)"
    using Cons.IH Cons.prems(1,2) by simp
  then show ?case using fresh key by (simp only: dedupLoop_Cons_key [OF key]) simp
qed

lemma map_range_order_props:
  assumes "map_range_order iter"
  shows "set (iter m) = set m" "distinct (map fst (iter m)) = distinct (map fst m)"
    "mset (map f (iter m)) = mset (map f m)"
proof -
  have eq: "mset (iter m) = mset m" using assms by (simp add: map_range_order_def)
  show "set (iter m) = set m" using eq by (rule mset_eq_setD)
  show "mset (map f (iter m)) = mset (map f m)" using eq by (metis mset_map)
  then have "mset (map fst (iter m)) = mset (map fst m)" using eq by (metis mset_map)
  then show "distinct (map fst (iter m)) = distinct (map fst m)"
    by (rule mset_eq_imp_distinct_iff)
qed

text \<open>What a successful run returns: the entries of the map, each keyed by its camera's key.\<close>

lemma deduplicateCameras_entries:
  assumes "map_range_order iter" "deduplicateCameras iter cameras = Inr out"
  obtains entries where "out = map snd entries" "distinct (map fst entries)"
    "fst ` set entries = {k. \<exists>c\<in>set cameras. cameraKey c = Some k}"
    "\<forall>(k, c)\<in>set entries. List.find (\<lambda>x. cameraKey x = Some k) cameras = Some c"
    "\<forall>c\<in>set cameras. cameraKey c \<noteq> None"
proof -
  from assms(2) obtain m' where m': "dedupLoop cameras [] = Inr m'" "out = map snd (iter m')"
    by (auto simp: deduplicateCameras_def split: sum.splits)
  from dedupLoop_first_seen [OF m'(1)] have
    "distinct (map fst m')" "fst ` set m' = {k. \<exists>c\<in>set cameras. cameraKey c = Some k}"
    "\<forall>(k, c)\<in>set m'. List.find (\<lambda>x. cameraKey x = Some k) cameras = Some c"
    by auto
  moreover have "\<forall>c\<in>set cameras. cameraKey c \<noteq> None"
    using dedupLoop_returns [of cameras "[]"] m'(1) by blast
  ultimately show thesis
    using that [of "iter m'"] m'(2) map_range_order_props(1,2) [OF assms(1), of m'] by simp
qed

lemma entries_keys:
  assumes "\<forall>(k, c)\<in>set entries. List.find (\<lambda>x. cameraKey x = Some k) cameras = Some c"
  shows "map cameraKey (map snd entries) = map (Some \<circ> fst) entries"
proof -
  have "cameraKey c = Some k" if "(k, c) \<in> set entries" for k c
    using assms that by (auto simp: find_Some_iff)
  then show ?thesis by auto
qed

lemma map_range_order_single: "map_range_order iter \<Longrightarrow> iter [x] = [x]"
proof -
  assume "map_range_order iter"
  then have "mset (iter [x]) = {#x#}" by (simp add: map_range_order_def)
  then show ?thesis by (simp only: mset_single_iff)
qed

lemma cameraKey_getFirstAddress:
  "cameraKey c = Some key \<Longrightarrow> getFirstAddress (Address c) = key"
  by (auto simp: cameraKey_def getFirstAddress_def split: list.splits)

lemma deduplicateCameras_same_key:
  assumes "map_range_order iter" "cameraKey a = Some key" "cameraKey b = Some key"
  shows "deduplicateCameras iter [a, b] = Inr [a]"
proof -
  have "dedupLoop [a, b] [] = Inr [(key, a)]"
    by (simp only: dedupLoop_Cons_key [OF assms(2)] dedupLoop_Cons_key [OF assms(3)]) simp
  then show ?thesis
    by (simp add: deduplicateCameras_def map_range_order_single [OF assms(1)])
qed

lemma strings_Fields_scenario_B:
  "strings_Fields ''http://10.0.0.5/onvif/device_service'' = [''http://10.0.0.5/onvif/device_service'']"
  "strings_Fields ''http://10.0.0.5/onvif/device_service http://10.0.0.5:8080/onvif/device_service''
     = [''http://10.0.0.5/onvif/device_service'', ''http://10.0.0.5:8080/onvif/device_service'']"
  by code_simp+

text \<open>
  The result of a successful run: one camera per key, every key of the input, and each
  camera the first of the input with its key.
\<close>

lemma deduplicateCameras_result:
  assumes "map_range_order iter" "deduplicateCameras iter cameras = Inr out"
  shows "distinct (map cameraKey out)" "cameraKey ` set out = cameraKey ` set cameras"
    "\<forall>c\<in>set out. cameraKey c = Some (getFirstAddress (Address c)) \<and>
       List.find (\<lambda>x. cameraKey x = cameraKey c) cameras = Some c"
proof -
  from deduplicateCameras_entries [OF assms] obtain entries where e:
    "out = map snd entries" "distinct (map fst entries)"
    "fst ` set entries = {k. \<exists>c\<in>set cameras. cameraKey c = Some k}"
    "\<forall>(k, c)\<in>set entries. List.find (\<lambda>x. cameraKey x = Some k) cameras = Some c"
    "\<forall>c\<in>set cameras. cameraKey c \<noteq> None"
    by blast
  have keys: "map cameraKey out = map (Some \<circ> fst) entries"
    using entries_keys [OF e(4)] e(1) by simp
  show "distinct (map cameraKey out)"
    using e(2) by (simp add: keys distinct_map del: map_map) (simp add: distinct_map inj_on_def)
  have "set (map cameraKey out) = Some ` fst ` set entries"
    by (simp add: keys image_image del: map_map)
  also have "\<dots> = cameraKey ` set cameras"
  proof -
    have "Some ` {k. \<exists>c\<in>set cameras. cameraKey c = Some k} = cameraKey ` set cameras"
    proof (intro equalityI subsetI)
      fix x assume "x \<in> Some ` {k. \<exists>c\<in>set cameras. cameraKey c = Some k}"
      then show "x \<in> cameraKey ` set cameras" by force
    next
      fix x assume "x \<in> cameraKey ` set cameras"
      then obtain c where c: "c \<in> set cameras" "x = cameraKey c" by blast
      then obtain k where "cameraKey c = Some k" using e(5) by auto
      then show "x \<in> Some ` {k. \<exists>c\<in>set cameras. cameraKey c = Some k}"
        using c by blast
    qed
    then show ?thesis by (simp add: e(3))
  qed
  finally show "cameraKey ` set out = cameraKey ` set cameras" by simp
  show "\<forall>c\<in>set out. cameraKey c = Some (getFirstAddress (Address c)) \<and>
          List.find (\<lambda>x. cameraKey x = cameraKey c) cameras = Some c"
  proof
    fix c assume "c \<in> set out"
    then obtain k where k: "(k, c) \<in> set entries" using e(1) by auto
    then have f: "List.find (\<lambda>x. cameraKey x = Some k) cameras = Some c" using e(4) by auto
    then have "cameraKey c = Some k" by (auto simp: find_Some_iff)
    then show "cameraKey c = Some (getFirstAddress (Address c)) \<and>
          List.find (\<lambda>x. cameraKey x = cameraKey c) cameras = Some c"
      using f by (simp add: cameraKey_getFirstAddress)
  qed
qed

text \<open>
  C1: a candidate whose address field has no token should be treated as a decode failure,
  and \<^const>\<open>deduplicateCameras\<close> should return normally on every list. On a list with one
  camera whose address is empty the function does not return: indexing the first token
  panics.
\<close>

theorem deduplicateCameras_empty_address:
  "deduplicateCameras iter [discoveredCamera name [] profiles model location] = Inl IndexOutOfRange"
  by (simp add: deduplicateCameras_def discoveredCamera_def strings_Fields_def)

text \<open>
  C2: deduplication keys each candidate by the first whitespace-separated token of its
  address field and keeps the first-seen candidate of each key: whenever the function
  returns, its result has one camera per key, the keys of the input, and each camera is the
  first camera of the input with its key. The two replies of Scenario B, one with a second
  address after the first, give the first candidate alone, keyed on
  \<^verbatim>\<open>http://10.0.0.5/onvif/device_service\<close>.
\<close>

theorem deduplicateCameras_first_seen:
  assumes "map_range_order iter"
  shows "(\<forall>cameras out. deduplicateCameras iter cameras = Inr out \<longrightarrow>
            distinct (map cameraKey out) \<and> cameraKey ` set out = cameraKey ` set cameras \<and>
            (\<forall>c\<in>set out. cameraKey c = Some (getFirstAddress (Address c)) \<and>
               List.find (\<lambda>x. cameraKey x = cameraKey c) cameras = Some c)) \<and>
         deduplicateCameras iter
           [discoveredCamera n1 ''http://10.0.0.5/onvif/device_service'' p1 m1 l1,
            discoveredCamera n2
              ''http://10.0.0.5/onvif/device_service http://10.0.0.5:8080/onvif/device_service''
              p2 m2 l2]
           = Inr [discoveredCamera n1 ''http://10.0.0.5/onvif/device_service'' p1 m1 l1] \<and>
         cameraKey (discoveredCamera n1 ''http://10.0.0.5/onvif/device_service'' p1 m1 l1)
           = Some ''http://10.0.0.5/onvif/device_service''"
proof (intro conjI allI impI)
  fix cameras out
  assume run: "deduplicateCameras iter cameras = Inr out"
  show "distinct (map cameraKey out)" "cameraKey ` set out = cameraKey ` set cameras"
    "\<forall>c\<in>set out. cameraKey c = Some (getFirstAddress (Address c)) \<and>
       List.find (\<lambda>x. cameraKey x = cameraKey c) cameras = Some c"
    by (rule deduplicateCameras_result [OF assms run])+
next
  let ?a = "discoveredCamera n1 ''http://10.0.0.5/onvif/device_service'' p1 m1 l1"
  let ?b = "discoveredCamera n2
      ''http://10.0.0.5/onvif/device_service http://10.0.0.5:8080/onvif/device_service'' p2 m2 l2"
  show a: "cameraKey ?a = Some ''http://10.0.0.5/onvif/device_service''"
    by (simp add: cameraKey_def discoveredCamera_def strings_Fields_scenario_B(1))
  have b: "cameraKey ?b = Some ''http://10.0.0.5/onvif/device_service''"
    by (simp add: cameraKey_def discoveredCamera_def strings_Fields_scenario_B(2))
  show "deduplicateCameras iter [?a, ?b] = Inr [?a]"
    by (rule deduplicateCameras_same_key [OF assms a b])
qed

theorem deduplicateCameras_first_seen_witness:
  "map_range_order id \<and>
   deduplicateCameras id
     [discoveredCamera ''front'' ''http://10.0.0.5/onvif/device_service'' [] [] [],
      discoveredCamera ''back''
        ''http://10.0.0.5/onvif/device_service http://10.0.0.5:8080/onvif/device_service'' [] [] []]
     = Inr [discoveredCamera ''front'' ''http://10.0.0.5/onvif/device_service'' [] [] []] \<and>
   List.find (\<lambda>x. cameraKey x =
        cameraKey (discoveredCamera ''front'' ''http://10.0.0.5/onvif/device_service'' [] [] []))
     [discoveredCamera ''front'' ''http://10.0.0.5/onvif/device_service'' [] [] [],
      discoveredCamera ''back''
        ''http://10.0.0.5/onvif/device_service http://10.0.0.5:8080/onvif/device_service'' [] [] []]
     = Some (discoveredCamera ''front'' ''http://10.0.0.5/onvif/device_service'' [] [] [])"
proof -
  have h: "map_range_order id" by (simp add: map_range_order_def)
  note t = deduplicateCameras_first_seen [OF h, of "''front''" "[]" "[]" "[]" "''back''" "[]" "[]" "[]"]
  from t have run: "deduplicateCameras id
     [discoveredCamera ''front'' ''http://10.0.0.5/onvif/device_service'' [] [] [],
      discoveredCamera ''back''
        ''http://10.0.0.5/onvif/device_service http://10.0.0.5:8080/onvif/device_service'' [] [] []]
     = Inr [discoveredCamera ''front'' ''http://10.0.0.5/onvif/device_service'' [] [] []]"
    by blast
  from t run show ?thesis using h by simp
qed

text \<open>
  C8: when every camera's address field has a token, \<^const>\<open>deduplicateCameras\<close> returns
  one camera per key, for every key of the input, and each is the first camera of the input
  with its key; applying it to its own result gives the same cameras again (as a multiset:
  the order in which Go visits the map is not fixed); and a rearranged input gives a result
  with the same keys and the same number of cameras, again one per key and the first seen
  in the rearranged list.
\<close>

theorem deduplicateCameras_idempotent:
  assumes "map_range_order iter" "map_range_order iter'"
    and "\<forall>c\<in>set cameras. strings_Fields (Address c) \<noteq> []"
  shows "\<exists>out. deduplicateCameras iter cameras = Inr out \<and>
           distinct (map cameraKey out) \<and> cameraKey ` set out = cameraKey ` set cameras \<and>
           (\<forall>c\<in>set out. List.find (\<lambda>x. cameraKey x = cameraKey c) cameras = Some c) \<and>
           (\<exists>out2. deduplicateCameras iter' out = Inr out2 \<and> mset out2 = mset out) \<and>
           (\<forall>cameras'. mset cameras' = mset cameras \<longrightarrow>
              (\<exists>out'. deduplicateCameras iter' cameras' = Inr out' \<and>
                 distinct (map cameraKey out') \<and>
                 cameraKey ` set out' = cameraKey ` set out \<and> length out' = length out \<and>
                 (\<forall>c\<in>set out'.
                    List.find (\<lambda>x. cameraKey x = cameraKey c) cameras' = Some c)))"
proof -
  have keyed: "\<forall>c\<in>set cameras. cameraKey c \<noteq> None"
    using assms(3) by (simp add: cameraKey_None)
  have returns: "\<exists>out. deduplicateCameras it cs = Inr out"
    if "\<forall>c\<in>set cs. cameraKey c \<noteq> None" for it cs
    using dedupLoop_returns [of cs "[]"] that by (auto simp: deduplicateCameras_def)
  from returns [OF keyed] obtain out where out: "deduplicateCameras iter cameras = Inr out"
    by blast
  note first = deduplicateCameras_result [OF assms(1) out]
  have first_seen: "\<forall>c\<in>set out. List.find (\<lambda>x. cameraKey x = cameraKey c) cameras = Some c"
    using first(3) by blast
  have len: "length xs = card (cameraKey ` set xs)" if "distinct (map cameraKey xs)" for xs
    using that distinct_card [of "map cameraKey xs"] by simp
  have out_keyed: "\<forall>c\<in>set out. cameraKey c \<noteq> None"
    using first(3) by auto
  have "dedupLoop out [] = Inr ([] @ map (\<lambda>c. (the (cameraKey c), c)) out)"
    using first(1) out_keyed by (intro dedupLoop_distinct_keys) simp_all
  then have "deduplicateCameras iter' out =
      Inr (map snd (iter' (map (\<lambda>c. (the (cameraKey c), c)) out)))"
    by (simp add: deduplicateCameras_def)
  moreover have "mset (map snd (iter' (map (\<lambda>c. (the (cameraKey c), c)) out))) = mset out"
  proof -
    have "mset (iter' (map (\<lambda>c. (the (cameraKey c), c)) out)) =
        mset (map (\<lambda>c. (the (cameraKey c), c)) out)"
      using assms(2) by (simp add: map_range_order_def)
    then show ?thesis by (simp add: image_mset.compositionality comp_def)
  qed
  ultimately have idem: "\<exists>out2. deduplicateCameras iter' out = Inr out2 \<and> mset out2 = mset out"
    by blast
  have perm: "\<exists>out'. deduplicateCameras iter' cameras' = Inr out' \<and>
       distinct (map cameraKey out') \<and>
       cameraKey ` set out' = cameraKey ` set out \<and> length out' = length out \<and>
       (\<forall>c\<in>set out'. List.find (\<lambda>x. cameraKey x = cameraKey c) cameras' = Some c)"
    if "mset cameras' = mset cameras" for cameras'
  proof -
    have same: "set cameras' = set cameras" using that by (rule mset_eq_setD)
    then obtain out' where out': "deduplicateCameras iter' cameras' = Inr out'"
      using returns [of cameras' iter'] keyed by auto
    note first' = deduplicateCameras_result [OF assms(2) out']
    have keys: "cameraKey ` set out' = cameraKey ` set out"
      using first(2) first'(2) same by simp
    then have "length out' = length out"
      using len [OF first(1)] len [OF first'(1)] by simp
    moreover have "\<forall>c\<in>set out'. List.find (\<lambda>x. cameraKey x = cameraKey c) cameras' = Some c"
      using first'(3) by blast
    ultimately show ?thesis using out' keys first'(1) by blast
  qed
  show ?thesis using out first(1,2) first_seen idem perm by blast
qed

theorem deduplicateCameras_idempotent_witness:
  "map_range_order id \<and> map_range_order rev \<and>
   strings_Fields (Address (discoveredCamera ''front''
      ''http://10.0.0.5/onvif/device_service'' [] [] [])) \<noteq> [] \<and>
   strings_Fields (Address (discoveredCamera ''back''
      ''http://10.0.0.5/onvif/device_service http://10.0.0.5:8080/onvif/device_service''
      [] [] [])) \<noteq> [] \<and>
   (\<exists>out. deduplicateCameras id
        [discoveredCamera ''front'' ''http://10.0.0.5/onvif/device_service'' [] [] [],
         discoveredCamera ''back''
          ''http://10.0.0.5/onvif/device_service http://10.0.0.5:8080/onvif/device_service'' [] [] []]
        = Inr out \<and>
      distinct (map cameraKey out) \<and>
      cameraKey ` set out = cameraKey ` set
        [discoveredCamera ''front'' ''http://10.0.0.5/onvif/device_service'' [] [] [],
         discoveredCamera ''back''
          ''http://10.0.0.5/onvif/device_service http://10.0.0.5:8080/onvif/device_service'' [] [] []] \<and>
      (\<exists>out2. deduplicateCameras rev out = Inr out2 \<and> mset out2 = mset out))"
proof -
  have h1: "map_range_order id" and h2: "map_range_order rev"
    by (simp_all add: map_range_order_def)
  have f: "strings_Fields (Address (discoveredCamera ''front''
      ''http://10.0.0.5/onvif/device_service'' [] [] [])) \<noteq> []"
    "strings_Fields (Address (discoveredCamera ''back''
      ''http://10.0.0.5/onvif/device_service http://10.0.0.5:8080/onvif/device_service''
      [] [] [])) \<noteq> []"
    by (simp_all add: discoveredCamera_def strings_Fields_scenario_B)
  then have h3: "\<forall>c\<in>set [discoveredCamera ''front'' ''http://10.0.0.5/onvif/device_service'' [] [] [],
        discoveredCamera ''back''
          ''http://10.0.0.5/onvif/device_service http://10.0.0.5:8080/onvif/device_service'' [] [] []].
      strings_Fields (Address c) \<noteq> []"
    by simp
  have "\<exists>out. deduplicateCameras id
        [discoveredCamera ''front'' ''http://10.0.0.5/onvif/device_service'' [] [] [],
         discoveredCamera ''back''
          ''http://10.0.0.5/onvif/device_service http://10.0.0.5:8080/onvif/device_service'' [] [] []]
        = Inr out \<and>
      distinct (map cameraKey out) \<and>
      cameraKey ` set out = cameraKey ` set
        [discoveredCamera ''front'' ''http://10.0.0.5/onvif/device_service'' [] [] [],
         discoveredCamera ''back''
          ''http://10.0.0.5/onvif/device_service http://10.0.0.5:8080/onvif/device_service'' [] [] []] \<and>
      (\<exists>out2. deduplicateCameras rev out = Inr out2 \<and> mset out2 = mset out)"
    using deduplicateCameras_idempotent [OF h1 h2 h3]
    by (elim exE conjE) (intro exI conjI, assumption+)
  with h1 h2 f show ?thesis
    apply -
    apply (intro conjI)
        apply assumption+
    done
qed

section \<open>Properties of parseScopes\<close>

lemma Replace_underscores: "strings_Replace s ''_'' '' '' (- 1) = underscoresToSpaces s"
proof -
  have "strings_Replace s ''_'' '' '' (- 1) =
      concat (map (\<lambda>x. if x = CHR ''_'' then '' '' else [x]) s)"
    using ReplaceAll_single [of "'' ''" "CHR ''_''" s] by (simp add: strings_ReplaceAll_def)
  also have "\<dots> = underscoresToSpaces s"
    by (induction s) (auto simp: underscoresToSpaces_def)
  finally show ?thesis .
qed

lemma Replace_leading_pattern:
  assumes "old \<noteq> []"
  shows "strings_Replace (old @ v) old [] 1 = v"
proof -
  have "strings_Index (old @ v) old = 0" using assms by (cases old) auto
  moreover have "strings_Replace v old [] 0 = v" by (subst strings_Replace.simps) simp
  ultimately show ?thesis using assms by (subst strings_Replace.simps) simp
qed

lemma scopesLoop_last_token:
  "scopesLoop pieces (name, location, model) =
     (scopeValue ''onvif://www.onvif.org/name/''
        (filter isNameToken (map strings_TrimSpace pieces)) name,
      scopeValue ''onvif://www.onvif.org/location/''
        (filter isLocationToken (map strings_TrimSpace pieces)) location,
      scopeValue ''onvif://www.onvif.org/hardware/''
        (filter isHardwareToken (map strings_TrimSpace pieces)) model)"
proof (induction pieces arbitrary: name location model)
  case Nil
  then show ?case by (simp add: scopeValue_def)
next
  case (Cons scope pieces)
  show ?case
    by (simp add: Cons.IH Let_def Replace_underscores isNameToken_def isLocationToken_def
        isHardwareToken_def scopeValue_def)
qed

text \<open>
  C9: \<^const>\<open>parseScopes\<close> cuts the scope string at spaces and, piece by piece, a name
  token sets the display name, a location token the location and a hardware token the
  hardware model, each with the pattern removed and underscores made spaces (for a token
  that is the pattern followed by a value, that is the value); other pieces change
  nothing, and the function returns a result for every string.
\<close>

theorem parseScopes_tokens:
  "parseScopes scopes =
     (scopeValue ''onvif://www.onvif.org/name/'' (filter isNameToken (scopeTokens scopes)) [],
      scopeValue ''onvif://www.onvif.org/location/'' (filter isLocationToken (scopeTokens scopes)) [],
      scopeValue ''onvif://www.onvif.org/hardware/'' (filter isHardwareToken (scopeTokens scopes)) [])
   \<and> (\<forall>v. underscoresToSpaces (strings_Replace (''onvif://www.onvif.org/name/'' @ v)
            ''onvif://www.onvif.org/name/'' [] 1) = underscoresToSpaces v)
   \<and> (\<forall>v. underscoresToSpaces (strings_Replace (''onvif://www.onvif.org/location/'' @ v)
            ''onvif://www.onvif.org/location/'' [] 1) = underscoresToSpaces v)
   \<and> (\<forall>v. underscoresToSpaces (strings_Replace (''onvif://www.onvif.org/hardware/'' @ v)
            ''onvif://www.onvif.org/hardware/'' [] 1) = underscoresToSpaces v)"
proof -
  have lead: "underscoresToSpaces (strings_Replace (old @ v) old [] 1) = underscoresToSpaces v"
    if "old \<noteq> []" for old v
    by (simp only: Replace_leading_pattern [OF that])
  show ?thesis
    apply (intro conjI allI)
       apply (simp add: parseScopes_def scopesLoop_last_token scopeTokens_def)
      apply (rule lead, simp)+
    done
qed

theorem parseScopes_tokens_witness:
  "scopeValue ''onvif://www.onvif.org/name/''
     (filter isNameToken (scopeTokens
        ''onvif://www.onvif.org/type/video_encoder onvif://www.onvif.org/name/Front_Door onvif://www.onvif.org/hardware/DS-2CD''))
     [] = ''Front Door''"
proof -
  have "parseScopes
      ''onvif://www.onvif.org/type/video_encoder onvif://www.onvif.org/name/Front_Door onvif://www.onvif.org/hardware/DS-2CD''
      = (''Front Door'', [], ''DS-2CD'')"
    by code_simp
  with parseScopes_tokens [of
      "''onvif://www.onvif.org/type/video_encoder onvif://www.onvif.org/name/Front_Door onvif://www.onvif.org/hardware/DS-2CD''"]
  show ?thesis by simp
qed

section \<open>Properties of the digest authenticator\<close>

lemma length_sha1: "length (sha1 msg) = 20"
  by (simp add: sha1_def bytes32_def split: prod.splits)

lemma length_base64: "length (base64 s) = 4 * ((length s + 2) div 3)"
proof (induction s rule: base64.induct)
  case (4 a b c rest)
  have "(length (a # b # c # rest) + 2) div 3 = Suc ((length rest + 2) div 3)" by simp
  then show ?case using 4 by simp
qed simp_all

lemma length_passwordDigest: "length (passwordDigest nonceBytes created password) = 28"
  by (simp add: passwordDigest_def length_base64 length_sha1)






























section \<open>Properties of the envelope and the transport\<close>

lemma showInt_401: "showInt 401 = ''401''"
  by code_simp

text \<open>
  C4: when the round trip completes with a status of 400 or more, \<^const>\<open>sendSOAPRequest\<close>
  returns the whole body with an error naming the status if the body is not empty, and an
  error naming the status with no body if it is empty; a 401 with an empty body is the
  error ``HTTP 401 with empty response'' and no body, so the caller sees a failed request
  and has nothing to parse.
\<close>

theorem sendSOAPRequest_error_status:
  assumes "newRequestError w endpoint = None"
    and "roundTrip w (buildRequest w c endpoint action body) = Response statusCode respBody"
    and "400 \<le> statusCode"
  shows "(respBody \<noteq> [] \<longrightarrow>
            sendSOAPRequest w c endpoint action body =
              (Some respBody, Some (''HTTP '' @ showInt statusCode @ '': '' @ statusText w statusCode))) \<and>
         (respBody = [] \<longrightarrow>
            sendSOAPRequest w c endpoint action body =
              (None, Some (''HTTP '' @ showInt statusCode @ '' with empty response''))) \<and>
         (respBody = [] \<and> statusCode = 401 \<longrightarrow>
            sendSOAPRequest w c endpoint action body = (None, Some ''HTTP 401 with empty response''))"
  using assms by (auto simp: sendSOAPRequest_def showInt_401)

theorem sendSOAPRequest_error_status_witness:
  "(400 :: int) \<le> 401 \<and>
   sendSOAPRequest
     \<lparr>clockCreated = ''2024-01-01T00:00:00.000Z'', clockUnixNano = 1704067200000000000,
      newRequestError = (\<lambda>endpoint. None), roundTrip = (\<lambda>req. Response 401 []),
      statusText = (\<lambda>code. ''Unauthorized'')\<rparr>
     \<lparr>Username = ''admin'', Password = ''secret'', Timeout = 0, InsecureTLS = False\<rparr>
     ''http://10.0.0.5/onvif/device_service''
     ''http://www.onvif.org/ver10/device/wsdl/GetUsers'' ''<tds:GetUsers/>''
   = (None, Some ''HTTP 401 with empty response'')"
proof -
  let ?w = "\<lparr>clockCreated = ''2024-01-01T00:00:00.000Z'', clockUnixNano = 1704067200000000000,
      newRequestError = (\<lambda>endpoint. None), roundTrip = (\<lambda>req. Response 401 []),
      statusText = (\<lambda>code. ''Unauthorized'')\<rparr>"
  let ?c = "\<lparr>Username = ''admin'', Password = ''secret'', Timeout = 0, InsecureTLS = False\<rparr>"
  have h1: "newRequestError ?w ''http://10.0.0.5/onvif/device_service'' = None" by simp
  have h2: "roundTrip ?w (buildRequest ?w ?c ''http://10.0.0.5/onvif/device_service''
      ''http://www.onvif.org/ver10/device/wsdl/GetUsers'' ''<tds:GetUsers/>'') = Response 401 []"
    by simp
  have h3: "(400 :: int) \<le> 401" by simp
  from sendSOAPRequest_error_status [OF h1 h2 h3] h3 show ?thesis by blast
qed

lemma authHeader_anonymous: "authHeader [] digest nonce created = []"
  by (simp add: authHeader_def)

lemma authHeader_shape:
  assumes "username \<noteq> []"
  shows "prefix (nl @ tab @ tab @ ''<Security xmlns='') (authHeader username digest nonce created)"
    and "suffix ''</Security>'' (authHeader username digest nonce created)"
    and "\<exists>pre post. authHeader username digest nonce created =
           pre @ ''<UsernameToken>'' @ nl @ tab @ tab @ tab @ tab
             @ ''<Username>'' @ username @ ''</Username>'' @ post"
proof -
  show "prefix (nl @ tab @ tab @ ''<Security xmlns='') (authHeader username digest nonce created)"
    using assms by (simp add: authHeader_def)
  show "suffix ''</Security>'' (authHeader username digest nonce created)"
    using assms unfolding authHeader_def suffix_def by (simp only: if_True) (metis append.assoc)
  show "\<exists>pre post. authHeader username digest nonce created =
           pre @ ''<UsernameToken>'' @ nl @ tab @ tab @ tab @ tab
             @ ''<Username>'' @ username @ ''</Username>'' @ post"
    using assms unfolding authHeader_def by (simp only: if_True) (metis append.assoc)
qed

lemma envelope_without_security:
  "\<not> strings_Contains (envelopeOpen @ tab @ ''<s:Header></s:Header>'' @ nl @ tab @ ''<s:Body>'')
      ''Security''"
  by code_simp

lemma buildRequest_body:
  "RequestBody (buildRequest w c endpoint action body) =
     soapRequest
       (authHeader (Username c)
          (passwordDigest (showInt (clockUnixNano w)) (clockCreated w) (Password c))
          (base64 (showInt (clockUnixNano w))) (clockCreated w))
       body"
  by (simp add: buildRequest_def generatePasswordDigest_def Let_def)

text \<open>
  C7: with an empty user name the request body sent by \<^const>\<open>sendSOAPRequest\<close> has the
  header element \<^verbatim>\<open><s:Header></s:Header>\<close> with nothing in it, and no \<^verbatim>\<open>Security\<close>
  anywhere before the caller's fragment; with a user name the header element holds the
  \<^verbatim>\<open>Security\<close> block with its \<^verbatim>\<open>UsernameToken\<close>, the user name, the digest, the nonce
  and the timestamp.
\<close>

theorem sendSOAPRequest_security_header:
  "(Username c = [] \<longrightarrow>
      RequestBody (buildRequest w c endpoint action body) =
        envelopeOpen @ tab @ ''<s:Header></s:Header>'' @ nl
        @ tab @ ''<s:Body>'' @ body @ ''</s:Body>'' @ nl @ ''</s:Envelope>'') \<and>
   \<not> strings_Contains (envelopeOpen @ tab @ ''<s:Header></s:Header>'' @ nl @ tab @ ''<s:Body>'')
       ''Security'' \<and>
   (Username c \<noteq> [] \<longrightarrow>
      (\<exists>security.
         RequestBody (buildRequest w c endpoint action body) =
           envelopeOpen @ tab @ ''<s:Header>'' @ security @ ''</s:Header>'' @ nl
           @ tab @ ''<s:Body>'' @ body @ ''</s:Body>'' @ nl @ ''</s:Envelope>'' \<and>
         security =
           authHeader (Username c)
             (passwordDigest (showInt (clockUnixNano w)) (clockCreated w) (Password c))
             (base64 (showInt (clockUnixNano w))) (clockCreated w) \<and>
         prefix (nl @ tab @ tab @ ''<Security xmlns='') security \<and>
         suffix ''</Security>'' security \<and>
         (\<exists>pre post. security =
            pre @ ''<UsernameToken>'' @ nl @ tab @ tab @ tab @ tab
              @ ''<Username>'' @ Username c @ ''</Username>'' @ post)))"
proof (intro conjI impI)
  assume "Username c = []"
  then show "RequestBody (buildRequest w c endpoint action body) =
        envelopeOpen @ tab @ ''<s:Header></s:Header>'' @ nl
        @ tab @ ''<s:Body>'' @ body @ ''</s:Body>'' @ nl @ ''</s:Envelope>''"
    by (simp add: buildRequest_body authHeader_anonymous soapRequest_def)
next
  show "\<not> strings_Contains (envelopeOpen @ tab @ ''<s:Header></s:Header>'' @ nl @ tab @ ''<s:Body>'')
       ''Security''"
    by (rule envelope_without_security)
next
  assume user: "Username c \<noteq> []"
  let ?security = "authHeader (Username c)
             (passwordDigest (showInt (clockUnixNano w)) (clockCreated w) (Password c))
             (base64 (showInt (clockUnixNano w))) (clockCreated w)"
  have "RequestBody (buildRequest w c endpoint action body) =
           envelopeOpen @ tab @ ''<s:Header>'' @ ?security @ ''</s:Header>'' @ nl
           @ tab @ ''<s:Body>'' @ body @ ''</s:Body>'' @ nl @ ''</s:Envelope>''"
    by (simp add: buildRequest_body soapRequest_def)
  then show "\<exists>security.
         RequestBody (buildRequest w c endpoint action body) =
           envelopeOpen @ tab @ ''<s:Header>'' @ security @ ''</s:Header>'' @ nl
           @ tab @ ''<s:Body>'' @ body @ ''</s:Body>'' @ nl @ ''</s:Envelope>'' \<and>
         security =
           authHeader (Username c)
             (passwordDigest (showInt (clockUnixNano w)) (clockCreated w) (Password c))
             (base64 (showInt (clockUnixNano w))) (clockCreated w) \<and>
         prefix (nl @ tab @ tab @ ''<Security xmlns='') security \<and>
         suffix ''</Security>'' security \<and>
         (\<exists>pre post. security =
            pre @ ''<UsernameToken>'' @ nl @ tab @ tab @ tab @ tab
              @ ''<Username>'' @ Username c @ ''</Username>'' @ post)"
    using authHeader_shape [OF user] by (intro exI [where x = ?security]) blast
qed

theorem sendSOAPRequest_security_header_witness:
  "Username \<lparr>Username = [], Password = [], Timeout = 0, InsecureTLS = False\<rparr> = [] \<and>
   RequestBody (buildRequest
      \<lparr>clockCreated = ''2024-01-01T00:00:00.000Z'', clockUnixNano = 1704067200000000000,
       newRequestError = (\<lambda>endpoint. None), roundTrip = (\<lambda>req. Response 200 []),
       statusText = (\<lambda>code. [])\<rparr>
      \<lparr>Username = [], Password = [], Timeout = 0, InsecureTLS = False\<rparr>
      ''http://10.0.0.5/onvif/device_service''
      ''http://www.onvif.org/ver10/device/wsdl/GetDeviceInformation''
      ''<tds:GetDeviceInformation/>'')
   = envelopeOpen @ tab @ ''<s:Header></s:Header>'' @ nl
     @ tab @ ''<s:Body>'' @ ''<tds:GetDeviceInformation/>'' @ ''</s:Body>'' @ nl @ ''</s:Envelope>'' \<and>
   Username \<lparr>Username = ''admin'', Password = ''secret'', Timeout = 0, InsecureTLS = False\<rparr> \<noteq> [] \<and>
   (\<exists>security.
      RequestBody (buildRequest
        \<lparr>clockCreated = ''2024-01-01T00:00:00.000Z'', clockUnixNano = 1704067200000000000,
         newRequestError = (\<lambda>endpoint. None), roundTrip = (\<lambda>req. Response 200 []),
         statusText = (\<lambda>code. [])\<rparr>
        \<lparr>Username = ''admin'', Password = ''secret'', Timeout = 0, InsecureTLS = False\<rparr>
        ''http://10.0.0.5/onvif/device_service''
        ''http://www.onvif.org/ver10/device/wsdl/GetDeviceInformation''
        ''<tds:GetDeviceInformation/>'')
      = envelopeOpen @ tab @ ''<s:Header>'' @ security @ ''</s:Header>'' @ nl
        @ tab @ ''<s:Body>'' @ ''<tds:GetDeviceInformation/>'' @ ''</s:Body>'' @ nl @ ''</s:Envelope>'' \<and>
      prefix (nl @ tab @ tab @ ''<Security xmlns='') security)"
proof -
  let ?w = "\<lparr>clockCreated = ''2024-01-01T00:00:00.000Z'', clockUnixNano = 1704067200000000000,
       newRequestError = (\<lambda>endpoint. None), roundTrip = (\<lambda>req. Response 200 []),
       statusText = (\<lambda>code. [])\<rparr>"
  let ?anon = "\<lparr>Username = [], Password = [], Timeout = 0, InsecureTLS = False\<rparr>"
  let ?admin = "\<lparr>Username = ''admin'', Password = ''secret'', Timeout = 0, InsecureTLS = False\<rparr>"
  have a: "Username ?anon = []" by simp
  have b: "Username ?admin \<noteq> []" by simp
  note anon = sendSOAPRequest_security_header [of ?anon ?w
      "''http://10.0.0.5/onvif/device_service''"
      "''http://www.onvif.org/ver10/device/wsdl/GetDeviceInformation''"
      "''<tds:GetDeviceInformation/>''"]
  note admin = sendSOAPRequest_security_header [of ?admin ?w
      "''http://10.0.0.5/onvif/device_service''"
      "''http://www.onvif.org/ver10/device/wsdl/GetDeviceInformation''"
      "''<tds:GetDeviceInformation/>''"]
  from anon a have 1: "RequestBody (buildRequest ?w ?anon
      ''http://10.0.0.5/onvif/device_service''
      ''http://www.onvif.org/ver10/device/wsdl/GetDeviceInformation''
      ''<tds:GetDeviceInformation/>'')
   = envelopeOpen @ tab @ ''<s:Header></s:Header>'' @ nl
     @ tab @ ''<s:Body>'' @ ''<tds:GetDeviceInformation/>'' @ ''</s:Body>'' @ nl @ ''</s:Envelope>''"
    by blast
  from admin b have 2: "\<exists>security.
      RequestBody (buildRequest ?w ?admin
        ''http://10.0.0.5/onvif/device_service''
        ''http://www.onvif.org/ver10/device/wsdl/GetDeviceInformation''
        ''<tds:GetDeviceInformation/>'')
      = envelopeOpen @ tab @ ''<s:Header>'' @ security @ ''</s:Header>'' @ nl
        @ tab @ ''<s:Body>'' @ ''<tds:GetDeviceInformation/>'' @ ''</s:Body>'' @ nl @ ''</s:Envelope>'' \<and>
      prefix (nl @ tab @ tab @ ''<Security xmlns='') security"
    by blast
  from a b 1 2 show ?thesis by (intro conjI)
qed

end
